theory Spec2Isabelle
  imports Complex_Main "HOL-Library.Multiset"
begin

section \<open>Data model\<close>

text \<open>
  Values of the dynamically typed style dictionaries (\<open>fontdict\<close>, \<open>data\<close>) of a feature.
\<close>

datatype py_value = IntV int | StrV string | NoneV

datatype error = ValueError | TypeError

text \<open>
  \<open>GraphicFeature\<close> (GraphicFeature.py): one field per attribute set by \<open>__init__\<close>.
  Coordinates are Python integers. The attribute \<open>end\<close> is called \<open>end'\<close> here.
  \<open>linewidth\<close> is a Python float; floats are modelled as exact rationals throughout.
\<close>

record GraphicFeature =
  start :: int
  end' :: int
  strand :: "int option"
  label :: "string option"
  color :: string
  linecolor :: string
  data :: "(string \<times> py_value) list"
  thickness :: int
  linewidth :: rat
  box_linewidth :: int
  box_color :: "string option"
  fontdict :: "(string \<times> py_value) list"
  html :: "string option"
  open_left :: bool
  open_right :: bool

text \<open>
  \<open>GraphicFeature(start, end, strand, label)\<close> with every other keyword left at its
  default, as the tests build their features.
\<close>

definition GraphicFeature_init ::
  "int \<Rightarrow> int \<Rightarrow> int option \<Rightarrow> string option \<Rightarrow> GraphicFeature" where
  "GraphicFeature_init s e st lb =
     \<lparr>start = s, end' = e, strand = st, label = lb, color = ''#000080'',
      linecolor = ''#000000'', data = [], thickness = 14, linewidth = 1,
      box_linewidth = 1, box_color = Some ''auto'',
      fontdict = [(''fontsize'', IntV 11)], html = None,
      open_left = False, open_right = False\<rparr>"

text \<open>
  \<open>GraphicRecord\<close> (GraphicRecord.py): the attributes set by \<open>__init__\<close>.
\<close>

record GraphicRecord =
  features :: "GraphicFeature list"
  sequence_length :: int
  feature_level_height :: rat
  sequence :: "string option"
  first_index :: int
  plots_indexing :: string
  labels_spacing :: int

text \<open>
  \<open>GraphicRecord(sequence_length, sequence, features, feature_level_height, first_index)\<close>
  with \<open>plots_indexing\<close> and \<open>labels_spacing\<close> at their defaults; a missing
  \<open>sequence_length\<close> is the length of the sequence, and a record with neither cannot be
  built (\<open>len(None)\<close> raises TypeError).
\<close>

definition GraphicRecord_init ::
  "int option \<Rightarrow> string option \<Rightarrow> GraphicFeature list \<Rightarrow> rat \<Rightarrow> int \<Rightarrow> error + GraphicRecord" where
  "GraphicRecord_init sl sq fs h fi =
     (case sl of
        Some n \<Rightarrow> Inr \<lparr>features = fs, sequence_length = n, feature_level_height = h,
                       sequence = sq, first_index = fi,
                       plots_indexing = ''biopython'', labels_spacing = 8\<rparr>
      | None \<Rightarrow>
          (case sq of
             None \<Rightarrow> Inl TypeError
           | Some xs \<Rightarrow> Inr \<lparr>features = fs, sequence_length = int (length xs),
                             feature_level_height = h, sequence = sq, first_index = fi,
                             plots_indexing = ''biopython'', labels_spacing = 8\<rparr>))"

section \<open>Feature operations\<close>

text \<open>\<open>split_in_two\<close>: two deep copies, the first ending at \<open>x_coord\<close>, the second starting after it.\<close>

definition split_in_two :: "GraphicFeature \<Rightarrow> int \<Rightarrow> GraphicFeature \<times> GraphicFeature" where
  "split_in_two f x_coord = (f\<lparr>end' := x_coord\<rparr>, f\<lparr>start := x_coord + 1\<rparr>)"

text \<open>\<open>crop\<close>: \<open>None\<close> when the window misses the feature, else a copy cut to the window.\<close>

definition crop :: "GraphicFeature \<Rightarrow> int \<times> int \<Rightarrow> GraphicFeature option" where
  "crop f window =
     (case window of (s, e) \<Rightarrow>
        if s > end' f \<or> e < start f then None
        else
          (let copy = f;
               copy = (if s > start f then copy\<lparr>start := s, open_left := True\<rparr> else copy);
               copy = (if e < end' f then copy\<lparr>end' := e, open_right := True\<rparr> else copy)
           in Some copy))"

text \<open>
  The positions a feature covers: a feature \<open>(start, end)\<close> has length \<open>end - start\<close> and
  covers the half-open range from \<open>start\<close> up to \<open>end\<close>, as its decomposition in
  \<open>overlaps_with\<close> has it.
\<close>

definition span_of :: "GraphicFeature \<Rightarrow> int set" where
  "span_of f = {start f ..< end' f}"


subsection \<open>Overlap test\<close>

text \<open>
  A range of \<open>overlaps_with\<close> is a Python tuple whose first component is an integer and
  whose second component is an integer or \<open>None\<close> (the value of an omitted
  \<open>circular_seq_length\<close>).
\<close>

type_synonym py_range = "int \<times> int option"

text \<open>
  Python 3 ordering of two values that are integers or \<open>None\<close>: defined between two
  integers, TypeError as soon as one side is \<open>None\<close>.
\<close>

definition py_lt :: "int option \<Rightarrow> int option \<Rightarrow> error + bool" where
  "py_lt a b = (case a of None \<Rightarrow> Inl TypeError
                | Some x \<Rightarrow> (case b of None \<Rightarrow> Inl TypeError | Some y \<Rightarrow> Inr (x < y)))"

definition py_gt :: "int option \<Rightarrow> int option \<Rightarrow> error + bool" where
  "py_gt a b = (case a of None \<Rightarrow> Inl TypeError
                | Some x \<Rightarrow> (case b of None \<Rightarrow> Inl TypeError | Some y \<Rightarrow> Inr (x > y)))"

text \<open>
  \<open>v < w\<close> on two such tuples: the first position where they differ (by \<open>==\<close>, which
  never raises) decides, by \<open><\<close> on the items there; equal tuples are not less.
\<close>

definition tuple_lt :: "py_range \<Rightarrow> py_range \<Rightarrow> error + bool" where
  "tuple_lt v w =
     (if fst v \<noteq> fst w then Inr (fst v < fst w)
      else if snd v \<noteq> snd w then py_lt (snd v) (snd w)
      else Inr False)"

text \<open>
  \<open>sorted([a, b])\<close>: the sort of a two-element list makes the one comparison \<open>b < a\<close>
  and reverses the list when it holds.
\<close>

definition sorted_pair :: "py_range \<Rightarrow> py_range \<Rightarrow> error + (py_range \<times> py_range)" where
  "sorted_pair a b =
     (case tuple_lt b a of
        Inl e \<Rightarrow> Inl e
      | Inr lt \<Rightarrow> Inr (if lt then (b, a) else (a, b)))"

text \<open>The ranges built for one feature (\<open>self_ranges\<close>, \<open>other_ranges\<close>).\<close>

definition ranges_of :: "GraphicFeature \<Rightarrow> int option \<Rightarrow> py_range list" where
  "ranges_of f circular_seq_length =
     (if start f < end' f then [(start f, Some (end' f))]
      else [(start f, circular_seq_length), (0, Some (end' f))])"

text \<open>The inner \<open>for other_range in other_ranges\<close> loop, threading the flag \<open>overlaps\<close>.\<close>

fun inner_loop :: "py_range \<Rightarrow> py_range list \<Rightarrow> bool \<Rightarrow> error + bool" where
  "inner_loop self_range [] overlaps = Inr overlaps"
| "inner_loop self_range (other_range # rest) overlaps =
     (case sorted_pair self_range other_range of
        Inl e \<Rightarrow> Inl e
      | Inr (loc1, loc2) \<Rightarrow>
          (case py_gt (snd loc1) (Some (fst loc2)) of
             Inl e \<Rightarrow> Inl e
           | Inr b \<Rightarrow> inner_loop self_range rest (if b then True else overlaps)))"

text \<open>The outer \<open>for self_range in self_ranges\<close> loop.\<close>

fun outer_loop :: "py_range list \<Rightarrow> py_range list \<Rightarrow> bool \<Rightarrow> error + bool" where
  "outer_loop [] other_ranges overlaps = Inr overlaps"
| "outer_loop (self_range # rest) other_ranges overlaps =
     (case inner_loop self_range other_ranges overlaps of
        Inl e \<Rightarrow> Inl e
      | Inr ov \<Rightarrow> outer_loop rest other_ranges ov)"

definition overlaps_with :: "GraphicFeature \<Rightarrow> GraphicFeature \<Rightarrow> int option \<Rightarrow> error + bool" where
  "overlaps_with self other circular_seq_length =
     (if (start self > end' self \<or> start other > end' other) \<and> circular_seq_length = None
      then Inl ValueError
      else outer_loop (ranges_of self circular_seq_length)
                      (ranges_of other circular_seq_length) False)"

text \<open>
  The decomposition and the strict overlap test as the specification words them, on
  integer ranges: one range when \<open>start < end\<close>, otherwise the two ranges up to the
  circular length and from the origin; two ranges overlap when, put in sorted
  (lexicographic) order, the earlier one ends after the later one starts.
\<close>

definition decompose :: "GraphicFeature \<Rightarrow> int \<Rightarrow> (int \<times> int) list" where
  "decompose f circular_seq_length =
     (if start f < end' f then [(start f, end' f)]
      else [(start f, circular_seq_length), (0, end' f)])"

definition lex_less :: "int \<times> int \<Rightarrow> int \<times> int \<Rightarrow> bool" where
  "lex_less p q = (fst p < fst q \<or> (fst p = fst q \<and> snd p < snd q))"

definition strict_overlap :: "int \<times> int \<Rightarrow> int \<times> int \<Rightarrow> bool" where
  "strict_overlap r1 r2 =
     (if lex_less r2 r1 then snd r2 > fst r1 else snd r1 > fst r2)"

definition spec_overlaps :: "GraphicFeature \<Rightarrow> GraphicFeature \<Rightarrow> int \<Rightarrow> bool" where
  "spec_overlaps a b circular_seq_length =
     (\<exists>ra \<in> set (decompose a circular_seq_length).
        \<exists>rb \<in> set (decompose b circular_seq_length). strict_overlap ra rb)"

subsection \<open>Lengths and centres\<close>

definition feature_length :: "GraphicFeature \<Rightarrow> int" where
  "feature_length f = \<bar>end' f - start f\<bar>"

definition length_circular :: "GraphicFeature \<Rightarrow> int \<Rightarrow> int" where
  "length_circular f sequence_length' =
     (if start f > end' f then sequence_length' - start f + end' f
      else end' f - start f)"

text \<open>
  The two centres are Python floats, modelled as exact rationals. The model is the code
  as long as the integers involved are below \<open>2^53\<close> in absolute value, where halves
  of integers are exact in floating point; beyond that Python rounds, or raises
  OverflowError when an integer does not fit a float, and the model does neither.
\<close>

definition x_center :: "GraphicFeature \<Rightarrow> rat" where
  "x_center f = (1 / 2) * of_int (start f + end' f - 1)"

definition x_center_circular :: "GraphicFeature \<Rightarrow> int \<Rightarrow> rat" where
  "x_center_circular f sequence_length' =
     (let feature_length = length_circular f sequence_length';
          mid_point = of_int feature_length * (1 / 2) + of_int (start f)
      in if mid_point \<le> of_int sequence_length' then mid_point
         else mid_point - of_int sequence_length')"

section \<open>Record operations\<close>

text \<open>
  Python's \<open>xs[s:e]\<close>: a negative index counts from the end, and both indices are
  clamped to the list.
\<close>

definition py_slice :: "'a list \<Rightarrow> int \<Rightarrow> int \<Rightarrow> 'a list" where
  "py_slice xs s e =
     (let n = int (length xs);
          i = (if s < 0 then max (s + n) 0 else min s n);
          j = (if e < 0 then max (e + n) 0 else min e n)
      in take (nat (j - i)) (drop (nat i) xs))"

text \<open>The loop of \<open>GraphicRecord.crop\<close> over the features, appending to \<open>new_features\<close>.\<close>

fun crop_loop :: "GraphicFeature list \<Rightarrow> int \<times> int \<Rightarrow> GraphicFeature list \<Rightarrow> GraphicFeature list" where
  "crop_loop [] window new_features = new_features"
| "crop_loop (f # fs) window new_features =
     (case crop f window of
        None \<Rightarrow> crop_loop fs window new_features
      | Some cropped_feature \<Rightarrow> crop_loop fs window (new_features @ [cropped_feature]))"

text \<open>
  \<open>GraphicRecord.crop\<close>. It reads the record and writes nothing to it: the result is a
  record built by the constructor, and the record itself is the argument, unchanged.
\<close>

definition GraphicRecord_crop :: "GraphicRecord \<Rightarrow> int \<times> int \<Rightarrow> error + GraphicRecord" where
  "GraphicRecord_crop r window =
     (case window of (s, e) \<Rightarrow>
        if s < 0 \<or> e \<ge> sequence_length r then Inl ValueError
        else GraphicRecord_init (Some (e - s))
               (case sequence r of None \<Rightarrow> None | Some sq \<Rightarrow> Some (py_slice sq s e))
               (crop_loop (features r) window [])
               (feature_level_height r)
               (first_index r + s))"

text \<open>
  The loop of \<open>split_overflowing_features_circularly\<close>; \<open>sl\<close> is the record's
  \<open>sequence_length\<close>.
\<close>

fun split_loop :: "GraphicFeature list \<Rightarrow> int \<Rightarrow> GraphicFeature list \<Rightarrow> GraphicFeature list" where
  "split_loop [] sl new_features = new_features"
| "split_loop (f # fs) sl new_features =
     (if start f < 0 \<and> 0 < end' f then
        (case split_in_two f (- 1) of (f1, f2) \<Rightarrow>
           split_loop fs sl
             (new_features @ [f1\<lparr>start := start f1 + sl, end' := end' f1 + sl\<rparr>, f2]))
      else if start f < sl \<and> sl < end' f then
        (case split_in_two f (sl - 1) of (f1, f2) \<Rightarrow>
           split_loop fs sl
             (new_features @ [f1, f2\<lparr>start := start f2 - sl, end' := end' f2 - sl\<rparr>]))
      else split_loop fs sl (new_features @ [f]))"

text \<open>The method mutates the record in place: the model returns the updated record.\<close>

definition split_overflowing_features_circularly :: "GraphicRecord \<Rightarrow> GraphicRecord" where
  "split_overflowing_features_circularly r =
     r\<lparr>features := split_loop (features r) (sequence_length r) []\<rparr>"

text \<open>
  A feature moved by \<open>d\<close> positions, and the features that replace one feature, in
  the words of the specification with the order of its two cases made explicit: a feature
  across the origin is cut at \<open>-1\<close> and its left fragment moved up by the sequence
  length; otherwise a feature across the end of the sequence is cut at
  \<open>sequence_length - 1\<close> and its right fragment moved back by the sequence length; any
  other feature stays.
\<close>

definition shifted :: "GraphicFeature \<Rightarrow> int \<Rightarrow> GraphicFeature" where
  "shifted f d = f\<lparr>start := start f + d, end' := end' f + d\<rparr>"

definition replacement :: "int \<Rightarrow> GraphicFeature \<Rightarrow> GraphicFeature list" where
  "replacement sl f =
     (if start f < 0 \<and> 0 < end' f
        then [shifted (fst (split_in_two f (- 1))) sl, snd (split_in_two f (- 1))]
      else if start f < sl \<and> sl < end' f
        then [fst (split_in_two f (sl - 1)), shifted (snd (split_in_two f (sl - 1))) (- sl)]
      else [f])"

text \<open>Both coordinates of a feature lie in the half-open range from \<open>lo\<close> up to \<open>hi\<close>.\<close>

definition coords_in :: "int \<Rightarrow> int \<Rightarrow> GraphicFeature \<Rightarrow> bool" where
  "coords_in lo hi f = (lo \<le> start f \<and> start f < hi \<and> lo \<le> end' f \<and> end' f < hi)"

text \<open>The record of \<open>test_split_overflowing_features\<close>.\<close>

definition test_record :: GraphicRecord where
  "test_record =
     \<lparr>features = [GraphicFeature_init 10 20 (Some 1) (Some ''a''),
                  GraphicFeature_init 40 55 (Some 1) (Some ''b''),
                  GraphicFeature_init (- 20) 2 (Some 1) (Some ''c'')],
      sequence_length = 50, feature_level_height = 1, sequence = None, first_index = 0,
      plots_indexing = ''biopython'', labels_spacing = 8\<rparr>"


text \<open>
  The record of \<open>test_sequence_and_translation_plotting\<close>: it is built from its
  sequence, seven times \<open>ATGC\<close>, so its \<open>sequence_length\<close> is 28.
\<close>

definition sequence_record :: GraphicRecord where
  "sequence_record =
     \<lparr>features = [(GraphicFeature_init 5 10 (Some 1) (Some ''bbS-1''))\<lparr>color := ''#ffd700''\<rparr>,
                  (GraphicFeature_init 8 15 (Some 1) (Some ''CrC''))\<lparr>color := ''#ffcccc''\<rparr>],
      sequence_length = 28, feature_level_height = 1,
      sequence = Some ''ATGCATGCATGCATGCATGCATGCATGC'', first_index = 0,
      plots_indexing = ''biopython'', labels_spacing = 8\<rparr>"

section \<open>Level assignment\<close>

text \<open>
  Modelled from the spec: the choice of a level for one feature (section 4.3, whose code
  is not among the sources). The open levels are the list of their most recently placed
  features, level \<open>0\<close> first. The levels are tried from the lowest one with
  \<open>overlaps_with\<close>, whose errors are passed on; the first level whose occupant does not
  overlap the feature is selected, and when none qualifies the result is the number of
  open levels, that is, a new level.
\<close>

fun find_level :: "GraphicFeature \<Rightarrow> GraphicFeature list \<Rightarrow> int option \<Rightarrow> nat \<Rightarrow> error + nat" where
  "find_level f [] c l = Inr l"
| "find_level f (occupant # rest) c l =
     (case overlaps_with f occupant c of
        Inl e \<Rightarrow> Inl e
      | Inr ov \<Rightarrow> if ov then find_level f rest c (l + 1) else Inr l)"

text \<open>
  Modelled from the spec: placing a feature on the selected level makes it the most
  recently placed feature of that level, or opens the new level with it.
\<close>

definition place :: "nat \<Rightarrow> GraphicFeature \<Rightarrow> GraphicFeature list \<Rightarrow> GraphicFeature list" where
  "place l f occupants = (if l < length occupants then occupants[l := f] else occupants @ [f])"

text \<open>
  Modelled from the spec: the pass over the features in processing order, each given with
  its index in the record (its identity), recording the assignment of a level to each
  index.
\<close>

fun assign_levels ::
  "(nat \<times> GraphicFeature) list \<Rightarrow> int option \<Rightarrow> GraphicFeature list \<Rightarrow> (nat \<times> nat) list
     \<Rightarrow> error + (nat \<times> nat) list" where
  "assign_levels [] c occupants levels = Inr levels"
| "assign_levels ((i, f) # rest) c occupants levels =
     (case find_level f occupants c 0 of
        Inl e \<Rightarrow> Inl e
      | Inr l \<Rightarrow> assign_levels rest c (place l f occupants) (levels @ [(i, l)]))"

text \<open>
  Modelled from the spec: the overlap test is the circular one, with the sequence length
  of the record, when the record is circular; the sources have no class of circular
  records, so this is a flag.
\<close>

definition circular_length :: "GraphicRecord \<Rightarrow> bool \<Rightarrow> int option" where
  "circular_length r circular = (if circular then Some (sequence_length r) else None)"

text \<open>
  Modelled from the spec: the level assignment of a record (section 4.3): the features are
  processed by start position, ties broken by original order (a stable sort), from no
  open level.
\<close>

definition compute_features_levels :: "GraphicRecord \<Rightarrow> bool \<Rightarrow> error + (nat \<times> nat) list" where
  "compute_features_levels r circular =
     assign_levels (sort_key (\<lambda>p. start (snd p)) (enumerate 0 (features r)))
       (circular_length r circular) [] []"

text \<open>
  The properties of a level assignment as the specification words them. Two features of a
  list overlap when \<open>overlaps_with\<close> returns true on them; an assignment (a list of
  pairs of a feature index and a level) keeps its levels disjoint when no two features of
  the same level overlap; any other assignment of levels to the indices is proper under
  the same condition.
\<close>

definition overlapping :: "GraphicFeature list \<Rightarrow> int option \<Rightarrow> nat \<Rightarrow> nat \<Rightarrow> bool" where
  "overlapping fs c i j = (overlaps_with (fs ! i) (fs ! j) c = Inr True)"

definition levels_disjoint :: "GraphicFeature list \<Rightarrow> int option \<Rightarrow> (nat \<times> nat) list \<Rightarrow> bool" where
  "levels_disjoint fs c levels =
     (\<forall>p \<in> set levels. \<forall>q \<in> set levels.
        fst p \<noteq> fst q \<and> snd p = snd q \<longrightarrow> \<not> overlapping fs c (fst p) (fst q))"

definition proper_levels :: "GraphicFeature list \<Rightarrow> int option \<Rightarrow> (nat \<Rightarrow> nat) \<Rightarrow> bool" where
  "proper_levels fs c lv =
     (\<forall>i \<in> {..<length fs}. \<forall>j \<in> {..<length fs}.
        i \<noteq> j \<and> lv i = lv j \<longrightarrow> \<not> overlapping fs c i j)"

text \<open>
  The record of \<open>test_by_hand\<close>, and a circular record of length 100 with the features
  \<open>(0, 20)\<close>, \<open>(30, 40)\<close> and the origin-spanning \<open>(90, 10)\<close>.
\<close>

definition by_hand_record :: GraphicRecord where
  "by_hand_record =
     \<lparr>features = [GraphicFeature_init 5 20 (Some 1) (Some ''Small feature''),
                  GraphicFeature_init 20 500 (Some 1) (Some ''Gene 1 with a very long name''),
                  GraphicFeature_init 400 700 (Some (- 1)) (Some ''Gene 2''),
                  GraphicFeature_init 600 900 (Some 1) (Some ''Gene 3'')],
      sequence_length = 1000, feature_level_height = 1, sequence = None, first_index = 0,
      plots_indexing = ''biopython'', labels_spacing = 8\<rparr>"

definition circular_record :: GraphicRecord where
  "circular_record =
     \<lparr>features = [GraphicFeature_init 0 20 None None,
                  GraphicFeature_init 30 40 None None,
                  GraphicFeature_init 90 10 None None],
      sequence_length = 100, feature_level_height = 1, sequence = None, first_index = 0,
      plots_indexing = ''biopython'', labels_spacing = 8\<rparr>"

text \<open>
  Two features with \<open>start < end\<close> share a position; and the invariant of the pass
  over such features: every index has one level, every placed feature starts and ends no
  later than the occupant of its level, every occupant is a placed feature of its level,
  no two features of a level share a position, and as many features as there are open
  levels share positions pairwise.
\<close>

definition meet :: "GraphicFeature \<Rightarrow> GraphicFeature \<Rightarrow> bool" where
  "meet f g = (start f < end' g \<and> start g < end' f)"

definition level_inv :: "GraphicFeature list \<Rightarrow> GraphicFeature list \<Rightarrow> (nat \<times> nat) list \<Rightarrow> bool" where
  "level_inv fs occ levels =
     (distinct (map fst levels) \<and>
      (\<forall>p \<in> set levels. fst p < length fs \<and> snd p < length occ \<and>
           start (fs ! fst p) \<le> start (occ ! snd p) \<and> end' (fs ! fst p) \<le> end' (occ ! snd p)) \<and>
      (\<forall>l < length occ. \<exists>p \<in> set levels. snd p = l \<and> fs ! fst p = occ ! l) \<and>
      (\<forall>p \<in> set levels. \<forall>q \<in> set levels.
           fst p \<noteq> fst q \<and> snd p = snd q \<longrightarrow> \<not> meet (fs ! fst p) (fs ! fst q)) \<and>
      (\<exists>K. K \<subseteq> fst ` set levels \<and> card K = length occ \<and>
           (\<forall>i \<in> K. \<forall>j \<in> K. i \<noteq> j \<longrightarrow> meet (fs ! i) (fs ! j))))"

section \<open>Cropping a feature\<close>

text \<open>
  Claim C1, as stated, fails on the open flags: a feature that is already open on a side
  stays open on it when the window does not cut that side.
\<close>

theorem crop_open_left_counterexample:
  "crop ((GraphicFeature_init 5 10 None None)\<lparr>open_left := True\<rparr>) (0, 20)
     = Some ((GraphicFeature_init 5 10 None None)\<lparr>open_left := True\<rparr>)
   \<and> open_left ((GraphicFeature_init 5 10 None None)\<lparr>open_left := True\<rparr>)
   \<and> \<not> (0 > start ((GraphicFeature_init 5 10 None None)\<lparr>open_left := True\<rparr>))"
  by (simp add: crop_def GraphicFeature_init_def)

text \<open>
  Claim C1, amended: \<open>f.crop((s, e))\<close> returns no value iff \<open>s > f.end\<close> or
  \<open>e < f.start\<close>; otherwise it returns a copy of \<open>f\<close> with \<open>start = max(f.start, s)\<close>,
  \<open>end = min(f.end, e)\<close>, \<open>open_left\<close> true iff \<open>s > f.start\<close> or \<open>f\<close> was already open
  on the left, \<open>open_right\<close> true iff \<open>e < f.end\<close> or \<open>f\<close> was already open on the
  right, and every other field as in \<open>f\<close>.
\<close>

theorem crop_spec:
  "(crop f (s, e) = None \<longleftrightarrow> s > end' f \<or> e < start f) \<and>
   (\<not> (s > end' f \<or> e < start f) \<longrightarrow>
      crop f (s, e) =
        Some (f\<lparr>start := max (start f) s, end' := min (end' f) e,
                open_left := (s > start f \<or> open_left f),
                open_right := (e < end' f \<or> open_right f)\<rparr>))"
  by (auto simp: crop_def Let_def max_def min_def)

theorem crop_spec_witness:
  "\<not> (425 > end' (GraphicFeature_init 400 700 None None)
        \<or> 650 < start (GraphicFeature_init 400 700 None None)) \<and>
   crop (GraphicFeature_init 400 700 None None) (425, 650) =
     Some ((GraphicFeature_init 400 700 None None)
             \<lparr>start := 425, end' := 650, open_left := True, open_right := True\<rparr>)"
proof -
  let ?f = "GraphicFeature_init 400 700 None None"
  have h: "\<not> (425 > end' ?f \<or> 650 < start ?f)"
    by (simp add: GraphicFeature_init_def)
  have "crop ?f (425, 650) =
          Some (?f\<lparr>start := max (start ?f) 425, end' := min (end' ?f) 650,
                   open_left := (425 > start ?f \<or> open_left ?f),
                   open_right := (650 < end' ?f \<or> open_right ?f)\<rparr>)"
    using crop_spec [of ?f 425 650] h by blast
  then show ?thesis using h by (simp add: GraphicFeature_init_def)
qed

section \<open>Cropping a record\<close>

lemma crop_loop_acc:
  "crop_loop fs w acc = acc @ map the (filter (\<lambda>c. c \<noteq> None) (map (\<lambda>f. crop f w) fs))"
  by (induction fs arbitrary: acc) (auto split: option.splits)

text \<open>
  What \<open>xs[s:e]\<close> is when \<open>s\<close> is not negative, as it is wherever
  \<open>GraphicRecord.crop\<close> slices: the items of \<open>xs\<close> from position \<open>s\<close> up to, and not
  including, position \<open>e\<close>, a negative \<open>e\<close> counting from the end of \<open>xs\<close>.
\<close>

lemma py_slice_from:
  assumes "0 \<le> s"
  shows "py_slice xs s e =
           take (nat ((if e < 0 then e + int (length xs) else e) - s)) (drop (nat s) xs)"
proof (cases "s < int (length xs)")
  case True
  with assms have i: "(if s < 0 then max (s + int (length xs)) 0 else min s (int (length xs))) = s"
    by simp
  have len: "length (drop (nat s) xs) = nat (int (length xs) - s)"
    using assms by simp
  show ?thesis
  proof (cases "e < 0")
    case True
    have "nat (max (e + int (length xs)) 0 - s) = nat (e + int (length xs) - s)"
      using assms by simp
    with True i show ?thesis by (simp add: py_slice_def Let_def)
  next
    case False
    have "take (nat (min e (int (length xs)) - s)) (drop (nat s) xs)
            = take (nat (e - s)) (drop (nat s) xs)"
    proof (cases "e \<le> int (length xs)")
      case True
      then show ?thesis by simp
    next
      case False
      then have "min e (int (length xs)) = int (length xs)" by simp
      moreover from False have "length (drop (nat s) xs) \<le> nat (e - s)"
        using len by simp
      ultimately show ?thesis using len by simp
    qed
    with False i show ?thesis by (simp add: py_slice_def Let_def)
  qed
next
  case False
  with assms have "drop (nat s) xs = []" by simp
  moreover from False assms
  have "(if s < 0 then max (s + int (length xs)) 0 else min s (int (length xs))) = int (length xs)"
    by simp
  ultimately show ?thesis by (simp add: py_slice_def Let_def)
qed

lemma py_slice_items:
  assumes "0 \<le> s" and "s \<le> e" and "e \<le> int (length xs)"
  shows "length (py_slice xs s e) = nat (e - s)"
    and "k < nat (e - s) \<Longrightarrow> py_slice xs s e ! k = xs ! (nat s + k)"
  using assms by (simp_all add: py_slice_from)

text \<open>
  Claim C5: \<open>r.crop((s, e))\<close> fails iff \<open>s < 0\<close> or \<open>e \<ge> r.sequence_length\<close>, and then
  with the range error (ValueError) and no record; otherwise it returns a new record with
  \<open>sequence_length = e - s\<close>, \<open>first_index = r.first_index + s\<close>, the sequence sliced to
  \<open>[s:e]\<close> if present (its items from position \<open>s\<close> up to, and not including, position
  \<open>e\<close>, a negative \<open>e\<close> counting from the end of the sequence), and as features
  exactly the results of \<open>f.crop((s, e))\<close> that are not \<open>None\<close>, in the order of \<open>r\<close>'s
  features. The record \<open>r\<close> is only read: the function has no other output than its
  result.
\<close>

theorem GraphicRecord_crop_spec:
  "((\<exists>err. GraphicRecord_crop r (s, e) = Inl err) \<longleftrightarrow> s < 0 \<or> e \<ge> sequence_length r) \<and>
   (s < 0 \<or> e \<ge> sequence_length r \<longrightarrow> GraphicRecord_crop r (s, e) = Inl ValueError) \<and>
   (\<not> (s < 0 \<or> e \<ge> sequence_length r) \<longrightarrow>
      (\<exists>r'. GraphicRecord_crop r (s, e) = Inr r' \<and>
            sequence_length r' = e - s \<and>
            first_index r' = first_index r + s \<and>
            sequence r' = (case sequence r of None \<Rightarrow> None
                           | Some sq \<Rightarrow> Some (py_slice sq s e)) \<and>
            sequence r' =
              (case sequence r of None \<Rightarrow> None
               | Some sq \<Rightarrow>
                   Some (take (nat ((if e < 0 then e + int (length sq) else e) - s))
                           (drop (nat s) sq))) \<and>
            features r' =
              map the (filter (\<lambda>c. c \<noteq> None) (map (\<lambda>f. crop f (s, e)) (features r)))))"
proof (intro conjI impI)
  show "(\<exists>err. GraphicRecord_crop r (s, e) = Inl err) \<longleftrightarrow> s < 0 \<or> e \<ge> sequence_length r"
    by (auto simp: GraphicRecord_crop_def GraphicRecord_init_def)
next
  assume "s < 0 \<or> e \<ge> sequence_length r"
  then show "GraphicRecord_crop r (s, e) = Inl ValueError"
    by (auto simp: GraphicRecord_crop_def)
next
  assume h: "\<not> (s < 0 \<or> e \<ge> sequence_length r)"
  then have s: "0 \<le> s" by simp
  let ?r' = "\<lparr>features = crop_loop (features r) (s, e) [], sequence_length = e - s,
               feature_level_height = feature_level_height r,
               sequence = (case sequence r of None \<Rightarrow> None
                           | Some sq \<Rightarrow> Some (py_slice sq s e)),
               first_index = first_index r + s,
               plots_indexing = ''biopython'', labels_spacing = 8\<rparr>"
  from h have eq: "GraphicRecord_crop r (s, e) = Inr ?r'"
    by (simp add: GraphicRecord_crop_def GraphicRecord_init_def)
  have sl: "sequence ?r' =
              (case sequence r of None \<Rightarrow> None
               | Some sq \<Rightarrow>
                   Some (take (nat ((if e < 0 then e + int (length sq) else e) - s))
                           (drop (nat s) sq)))"
    by (simp add: py_slice_from [OF s] split: option.splits)
  have fs: "features ?r' =
              map the (filter (\<lambda>c. c \<noteq> None) (map (\<lambda>f. crop f (s, e)) (features r)))"
    by (simp add: crop_loop_acc)
  show "\<exists>r'. GraphicRecord_crop r (s, e) = Inr r' \<and>
            sequence_length r' = e - s \<and>
            first_index r' = first_index r + s \<and>
            sequence r' = (case sequence r of None \<Rightarrow> None
                           | Some sq \<Rightarrow> Some (py_slice sq s e)) \<and>
            sequence r' =
              (case sequence r of None \<Rightarrow> None
               | Some sq \<Rightarrow>
                   Some (take (nat ((if e < 0 then e + int (length sq) else e) - s))
                           (drop (nat s) sq))) \<and>
            features r' =
              map the (filter (\<lambda>c. c \<noteq> None) (map (\<lambda>f. crop f (s, e)) (features r)))"
    using eq sl fs by (intro exI [of _ ?r']) simp
qed

theorem GraphicRecord_crop_spec_witness:
  "\<not> (7 < (0::int) \<or> 12 \<ge> sequence_length sequence_record) \<and>
   (\<exists>r'. GraphicRecord_crop sequence_record (7, 12) = Inr r' \<and>
         sequence_length r' = 5 \<and> first_index r' = 7 \<and> sequence r' = Some ''CATGC'' \<and>
         features r' =
           [(GraphicFeature_init 7 10 (Some 1) (Some ''bbS-1''))
               \<lparr>color := ''#ffd700'', open_left := True\<rparr>,
            (GraphicFeature_init 8 12 (Some 1) (Some ''CrC''))
               \<lparr>color := ''#ffcccc'', open_right := True\<rparr>])"
proof -
  have h: "\<not> (7 < (0::int) \<or> 12 \<ge> sequence_length sequence_record)"
    by (simp add: sequence_record_def)
  from GraphicRecord_crop_spec [of sequence_record 7 12] h
  obtain r' where r': "GraphicRecord_crop sequence_record (7, 12) = Inr r'"
    "sequence_length r' = 12 - 7" "first_index r' = first_index sequence_record + 7"
    "sequence r' =
       (case sequence sequence_record of None \<Rightarrow> None
        | Some sq \<Rightarrow>
            Some (take (nat ((if (12::int) < 0 then 12 + int (length sq) else 12) - 7))
                    (drop (nat 7) sq)))"
    "features r' = map the (filter (\<lambda>c. c \<noteq> None)
                     (map (\<lambda>f. crop f (7, 12)) (features sequence_record)))"
    by blast
  have sq: "sequence r' = Some ''CATGC''"
    unfolding r'(4) by (simp add: sequence_record_def eval_nat_numeral)
  have fs: "features r' =
           [(GraphicFeature_init 7 10 (Some 1) (Some ''bbS-1''))
               \<lparr>color := ''#ffd700'', open_left := True\<rparr>,
            (GraphicFeature_init 8 12 (Some 1) (Some ''CrC''))
               \<lparr>color := ''#ffcccc'', open_right := True\<rparr>]"
    unfolding r'(5) by (simp add: sequence_record_def crop_def GraphicFeature_init_def)
  from r'(1,2,3) sq fs h show ?thesis by (simp add: sequence_record_def)
qed

section \<open>Splitting the features that overflow a circular record\<close>

lemma split_loop_acc:
  "split_loop fs sl acc = acc @ concat (map (replacement sl) fs)"
  by (induction fs arbitrary: acc)
     (auto simp: replacement_def shifted_def split_in_two_def)

lemma replacement_label: "g \<in> set (replacement sl f) \<Longrightarrow> label g = label f"
  by (auto simp: replacement_def shifted_def split_in_two_def split: if_splits)

text \<open>
  Claim C3, as stated, fails for a feature that lies across both the origin and the end
  of the sequence: the first case takes it, and the cut at \<open>sequence_length - 1\<close> the claim
  promises for every feature with \<open>start < sequence_length < end\<close> is not made. On a
  record of length 50 the feature \<open>(-5, 60)\<close> becomes \<open>(45, 49)\<close> and \<open>(0, 60)\<close>.
\<close>

theorem split_overflowing_both_sides_counterexample:
  "start (GraphicFeature_init (- 5) 60 None (Some ''d'')) < 50 \<and>
   50 < end' (GraphicFeature_init (- 5) 60 None (Some ''d'')) \<and>
   features (split_overflowing_features_circularly
      (test_record\<lparr>features := [GraphicFeature_init (- 5) 60 None (Some ''d'')]\<rparr>))
   \<noteq> [fst (split_in_two (GraphicFeature_init (- 5) 60 None (Some ''d'')) (50 - 1)),
       shifted (snd (split_in_two (GraphicFeature_init (- 5) 60 None (Some ''d'')) (50 - 1)))
         (- 50)]"
  by (simp add: split_overflowing_features_circularly_def test_record_def
        GraphicFeature_init_def split_in_two_def shifted_def)

text \<open>
  Claim C3, amended: \<open>split_overflowing_features_circularly\<close> changes only the feature
  list of the record, replacing, in order, each feature with \<open>start < 0 < end\<close> by the two
  fragments of \<open>split_in_two(-1)\<close>, the left one shifted by \<open>+sequence_length\<close>, each
  other feature with \<open>start < sequence_length < end\<close> by the two fragments of
  \<open>split_in_two(sequence_length - 1)\<close>, the right one shifted by \<open>-sequence_length\<close>, and
  keeping every remaining feature; every fragment keeps the label of its feature. On the
  record of length 50 with features \<open>(10, 20, a)\<close>, \<open>(40, 55, b)\<close>, \<open>(-20, 2, c)\<close> the
  resulting \<open>(start, end, label)\<close> triples are, as a multiset,
  \<open>(0, 2, c)\<close>, \<open>(0, 5, b)\<close>, \<open>(10, 20, a)\<close>, \<open>(30, 49, c)\<close>, \<open>(40, 49, b)\<close>.
\<close>

theorem split_overflowing_features_circularly_spec:
  "split_overflowing_features_circularly r =
     r\<lparr>features := concat (map (replacement (sequence_length r)) (features r))\<rparr> \<and>
   (\<forall>f \<in> set (features r). \<forall>g \<in> set (replacement (sequence_length r) f).
      label g = label f) \<and>
   mset (map (\<lambda>f. (start f, end' f, label f))
          (features (split_overflowing_features_circularly test_record)))
     = {#(0, 2, Some ''c''), (0, 5, Some ''b''), (10, 20, Some ''a''),
         (30, 49, Some ''c''), (40, 49, Some ''b'')#}"
proof (intro conjI)
  show "split_overflowing_features_circularly r =
     r\<lparr>features := concat (map (replacement (sequence_length r)) (features r))\<rparr>"
    by (simp add: split_overflowing_features_circularly_def split_loop_acc)
  show "\<forall>f \<in> set (features r). \<forall>g \<in> set (replacement (sequence_length r) f).
      label g = label f"
    by (simp add: replacement_label)
  have "map (\<lambda>f. (start f, end' f, label f))
          (features (split_overflowing_features_circularly test_record))
        = [(10, 20, Some ''a''), (40, 49, Some ''b''), (0, 5, Some ''b''),
           (30, 49, Some ''c''), (0, 2, Some ''c'')]"
    by (simp add: split_overflowing_features_circularly_def test_record_def
          GraphicFeature_init_def split_in_two_def)
  then show "mset (map (\<lambda>f. (start f, end' f, label f))
          (features (split_overflowing_features_circularly test_record)))
     = {#(0, 2, Some ''c''), (0, 5, Some ''b''), (10, 20, Some ''a''),
         (30, 49, Some ''c''), (40, 49, Some ''b'')#}"
    by simp
qed

theorem split_overflowing_features_circularly_spec_witness:
  "GraphicFeature_init 40 55 (Some 1) (Some ''b'') \<in> set (features test_record) \<and>
   list_all (\<lambda>g. label g = Some ''b'')
     (replacement (sequence_length test_record)
        (GraphicFeature_init 40 55 (Some 1) (Some ''b''))) \<and>
   replacement (sequence_length test_record) (GraphicFeature_init 40 55 (Some 1) (Some ''b''))
     = [(GraphicFeature_init 40 55 (Some 1) (Some ''b''))\<lparr>end' := 49\<rparr>,
        (GraphicFeature_init 40 55 (Some 1) (Some ''b''))\<lparr>start := 0, end' := 5\<rparr>]"
proof -
  let ?b = "GraphicFeature_init 40 55 (Some 1) (Some ''b'')"
  have m: "?b \<in> set (features test_record)"
    by (simp add: test_record_def)
  have l: "label ?b = Some ''b''"
    by (simp add: GraphicFeature_init_def)
  from split_overflowing_features_circularly_spec [of test_record] m
  have "\<forall>g \<in> set (replacement (sequence_length test_record) ?b). label g = label ?b"
    by blast
  then have "list_all (\<lambda>g. label g = Some ''b'')
               (replacement (sequence_length test_record) ?b)"
    unfolding l by (simp only: list_all_iff)
  moreover have "replacement (sequence_length test_record) ?b
      = [?b\<lparr>end' := 49\<rparr>, ?b\<lparr>start := 0, end' := 5\<rparr>]"
    by (simp add: replacement_def test_record_def GraphicFeature_init_def
          split_in_two_def shifted_def)
  ultimately show ?thesis using m by blast
qed

text \<open>
  Claim C7, as stated, fails: a feature that lies in the range
  \<open>[-sequence_length, 2 * sequence_length)\<close> without crossing the origin or the end of
  the sequence is left where it is. On a record of length 50 the feature \<open>(60, 70)\<close> is
  unchanged.
\<close>

theorem split_overflowing_range_counterexample:
  "coords_in (- 50) (2 * 50) (GraphicFeature_init 60 70 None None) \<and>
   sequence_length (test_record\<lparr>features := [GraphicFeature_init 60 70 None None]\<rparr>) = 50 \<and>
   features (split_overflowing_features_circularly
      (test_record\<lparr>features := [GraphicFeature_init 60 70 None None]\<rparr>))
     = [GraphicFeature_init 60 70 None None] \<and>
   \<not> coords_in 0 50 (GraphicFeature_init 60 70 None None)"
  by (simp add: split_overflowing_features_circularly_def test_record_def
        GraphicFeature_init_def coords_in_def)

lemma replacement_coords_in:
  assumes "coords_in (- sl) (2 * sl) f"
    and "coords_in 0 sl f \<or> (start f < 0 \<and> 0 < end' f \<and> end' f < sl)
           \<or> (0 \<le> start f \<and> start f < sl \<and> sl < end' f)"
    and "g \<in> set (replacement sl f)"
  shows "coords_in 0 sl g"
  using assms
  by (auto simp: replacement_def coords_in_def shifted_def split_in_two_def split: if_splits)

text \<open>
  Claim C7, amended: for every record whose feature coordinates lie in the range
  \<open>[-sequence_length, 2 * sequence_length)\<close> and whose features each either lie within
  \<open>[0, sequence_length)\<close> already, or cross the origin only (\<open>start < 0 < end < sequence_length\<close>),
  or cross the end of the sequence only (\<open>0 \<le> start < sequence_length < end\<close>), after
  \<open>split_overflowing_features_circularly\<close> every feature of the record has start and end
  within \<open>[0, sequence_length)\<close>.
\<close>

theorem split_overflowing_within_range:
  assumes "\<forall>f \<in> set (features r).
             coords_in (- sequence_length r) (2 * sequence_length r) f \<and>
             (coords_in 0 (sequence_length r) f
              \<or> (start f < 0 \<and> 0 < end' f \<and> end' f < sequence_length r)
              \<or> (0 \<le> start f \<and> start f < sequence_length r \<and> sequence_length r < end' f))"
  shows "\<forall>g \<in> set (features (split_overflowing_features_circularly r)).
           coords_in 0 (sequence_length r) g"
proof
  fix g
  assume "g \<in> set (features (split_overflowing_features_circularly r))"
  then obtain f where f: "f \<in> set (features r)"
      and g: "g \<in> set (replacement (sequence_length r) f)"
    by (auto simp: split_overflowing_features_circularly_def split_loop_acc)
  from assms f have "coords_in (- sequence_length r) (2 * sequence_length r) f"
    and "coords_in 0 (sequence_length r) f
         \<or> (start f < 0 \<and> 0 < end' f \<and> end' f < sequence_length r)
         \<or> (0 \<le> start f \<and> start f < sequence_length r \<and> sequence_length r < end' f)"
    by blast+
  then show "coords_in 0 (sequence_length r) g"
    using g by (rule replacement_coords_in)
qed

theorem split_overflowing_within_range_witness:
  "list_all (\<lambda>f.
      coords_in (- sequence_length test_record) (2 * sequence_length test_record) f \<and>
      (coords_in 0 (sequence_length test_record) f
       \<or> (start f < 0 \<and> 0 < end' f \<and> end' f < sequence_length test_record)
       \<or> (0 \<le> start f \<and> start f < sequence_length test_record
            \<and> sequence_length test_record < end' f))) (features test_record) \<and>
   list_all (coords_in 0 (sequence_length test_record))
     (features (split_overflowing_features_circularly test_record)) \<and>
   length (features (split_overflowing_features_circularly test_record)) = 5"
proof -
  have h: "\<forall>f \<in> set (features test_record).
      coords_in (- sequence_length test_record) (2 * sequence_length test_record) f \<and>
      (coords_in 0 (sequence_length test_record) f
       \<or> (start f < 0 \<and> 0 < end' f \<and> end' f < sequence_length test_record)
       \<or> (0 \<le> start f \<and> start f < sequence_length test_record
            \<and> sequence_length test_record < end' f))"
    by (simp add: test_record_def GraphicFeature_init_def coords_in_def)
  have n: "length (features (split_overflowing_features_circularly test_record)) = 5"
    by (simp add: split_overflowing_features_circularly_def test_record_def
          GraphicFeature_init_def split_in_two_def)
  from split_overflowing_within_range [OF h] h n show ?thesis
    by (simp only: list_all_iff simp_thms)
qed

section \<open>Overlap of two features\<close>

text \<open>A range with an integer upper bound, as a tuple of \<open>overlaps_with\<close>.\<close>

lemma tuple_lt_Some:
  "tuple_lt (a, Some b) (c, Some d) = Inr (lex_less (a, b) (c, d))"
  by (auto simp: tuple_lt_def py_lt_def lex_less_def)

lemma sorted_pair_Some:
  "sorted_pair (a, Some b) (c, Some d) =
     Inr (if lex_less (c, d) (a, b) then ((c, Some d), (a, Some b))
          else ((a, Some b), (c, Some d)))"
  by (simp add: sorted_pair_def tuple_lt_Some)

lemma inner_loop_Some:
  "inner_loop (a, Some b) (map (\<lambda>r. (fst r, Some (snd r))) rs) acc =
     Inr (acc \<or> (\<exists>r \<in> set rs. strict_overlap (a, b) r))"
proof (induction rs arbitrary: acc)
  case Nil
  show ?case by simp
next
  case (Cons r rs)
  obtain c d where r: "r = (c, d)" by (cases r)
  show ?case
    by (auto simp: r sorted_pair_Some py_gt_def strict_overlap_def Cons.IH)
qed

lemma outer_loop_Some:
  "outer_loop (map (\<lambda>r. (fst r, Some (snd r))) xs) (map (\<lambda>r. (fst r, Some (snd r))) ys) acc =
     Inr (acc \<or> (\<exists>ra \<in> set xs. \<exists>rb \<in> set ys. strict_overlap ra rb))"
proof (induction xs arbitrary: acc)
  case Nil
  show ?case by simp
next
  case (Cons x xs)
  obtain a b where x: "x = (a, b)" by (cases x)
  show ?case
    by (auto simp: x inner_loop_Some Cons.IH)
qed

lemma ranges_of_Some:
  "ranges_of f (Some n) = map (\<lambda>r. (fst r, Some (snd r))) (decompose f n)"
  by (simp add: ranges_of_def decompose_def)

lemma ranges_of_linear:
  "start f < end' f \<Longrightarrow> ranges_of f c = map (\<lambda>r. (fst r, Some (snd r))) (decompose f n)"
  by (simp add: ranges_of_def decompose_def)

lemma overlaps_with_Some:
  "overlaps_with a b (Some n) = Inr (spec_overlaps a b n)"
  by (simp add: overlaps_with_def ranges_of_Some outer_loop_Some spec_overlaps_def)

lemma overlaps_with_linear:
  assumes "start a < end' a" and "start b < end' b"
  shows "overlaps_with a b c = Inr (spec_overlaps a b n)"
proof -
  have "overlaps_with a b c = outer_loop (ranges_of a c) (ranges_of b c) False"
    using assms by (simp add: overlaps_with_def)
  also have "\<dots> = Inr (spec_overlaps a b n)"
    by (simp add: ranges_of_linear [OF assms(1), of c n] ranges_of_linear [OF assms(2), of c n]
          outer_loop_Some spec_overlaps_def)
  finally show ?thesis .
qed

lemma spec_overlaps_linear:
  assumes "start a < end' a" and "start b < end' b"
  shows "spec_overlaps a b n =
           (if lex_less (start b, end' b) (start a, end' a) then end' b > start a
            else end' a > start b)"
  using assms by (simp add: spec_overlaps_def decompose_def strict_overlap_def)

text \<open>
  Claim C2: with a circular length supplied, and also without one when both features
  have \<open>start < end\<close>, \<open>a.overlaps_with(b, circular_seq_length)\<close> returns a value, and
  that value is true iff some range of \<open>a\<close> and some range of \<open>b\<close>, put in sorted
  order, satisfy \<open>earlier.end > later.start\<close>; a feature is decomposed into the one
  range \<open>(start, end)\<close> when \<open>start < end\<close> and into the two ranges
  \<open>(start, circular_seq_length)\<close> and \<open>(0, end)\<close> otherwise. Two features with
  \<open>start < end\<close> that merely touch (\<open>a.end = b.start\<close>) do not overlap.
\<close>

theorem overlaps_with_spec:
  "overlaps_with a b (Some n) = Inr (spec_overlaps a b n) \<and>
   (start a < end' a \<and> start b < end' b \<longrightarrow>
      overlaps_with a b None = Inr (spec_overlaps a b n)) \<and>
   (start a < end' a \<and> start b < end' b \<and> end' a = start b \<longrightarrow>
      overlaps_with a b c = Inr False \<and> overlaps_with b a c = Inr False)"
proof (intro conjI impI)
  show "overlaps_with a b (Some n) = Inr (spec_overlaps a b n)"
    by (rule overlaps_with_Some)
next
  assume "start a < end' a \<and> start b < end' b"
  then show "overlaps_with a b None = Inr (spec_overlaps a b n)"
    by (simp add: overlaps_with_linear)
next
  assume h: "start a < end' a \<and> start b < end' b \<and> end' a = start b"
  then have "\<not> spec_overlaps a b 0"
    by (simp add: spec_overlaps_linear lex_less_def)
  with h show "overlaps_with a b c = Inr False"
    by (simp add: overlaps_with_linear [of a b c 0])
next
  assume h: "start a < end' a \<and> start b < end' b \<and> end' a = start b"
  then have "\<not> spec_overlaps b a 0"
    by (simp add: spec_overlaps_linear lex_less_def)
  with h show "overlaps_with b a c = Inr False"
    by (simp add: overlaps_with_linear [of b a c 0])
qed

theorem overlaps_with_spec_witness:
  "start (GraphicFeature_init 0 5 None None) < end' (GraphicFeature_init 0 5 None None) \<and>
   start (GraphicFeature_init 5 10 None None) < end' (GraphicFeature_init 5 10 None None) \<and>
   end' (GraphicFeature_init 0 5 None None) = start (GraphicFeature_init 5 10 None None) \<and>
   overlaps_with (GraphicFeature_init 0 5 None None) (GraphicFeature_init 5 10 None None) None
     = Inr False \<and>
   \<not> spec_overlaps (GraphicFeature_init 0 5 None None) (GraphicFeature_init 5 10 None None) 20"
proof -
  let ?a = "GraphicFeature_init 0 5 None None" and ?b = "GraphicFeature_init 5 10 None None"
  have h: "start ?a < end' ?a \<and> start ?b < end' ?b \<and> end' ?a = start ?b"
    by (simp add: GraphicFeature_init_def)
  from overlaps_with_spec [of ?a ?b 20 None] h
  have "overlaps_with ?a ?b None = Inr (spec_overlaps ?a ?b 20)"
    and "overlaps_with ?a ?b None = Inr False"
    by blast+
  with h show ?thesis by simp
qed

text \<open>
  The guard of \<open>overlaps_with\<close>: without a circular length the call fails with the
  error that asks for \<open>circular_seq_length\<close> (the ValueError) iff at least one of the
  two features has \<open>start > end\<close>. When the circular length is supplied the call raises
  no error at all, and when both features have \<open>start < end\<close> it raises none either.
\<close>

lemma overlaps_with_guard:
  "(overlaps_with a b None = Inl ValueError \<longleftrightarrow> start a > end' a \<or> start b > end' b) \<and>
   (\<exists>v. overlaps_with a b (Some n) = Inr v) \<and>
   (start a < end' a \<and> start b < end' b \<longrightarrow> (\<exists>v. overlaps_with a b None = Inr v))"
proof (intro conjI impI)
  have no_ValueError: "inner_loop r ys acc \<noteq> Inl ValueError" for r ys acc
  proof (induction ys arbitrary: acc)
    case Nil
    show ?case by simp
  next
    case (Cons y ys)
    show ?case
      using Cons.IH
      by (auto simp: sorted_pair_def tuple_lt_def py_lt_def py_gt_def
               split: sum.splits option.splits if_splits)
  qed
  have "outer_loop xs ys acc \<noteq> Inl ValueError" for xs ys acc
  proof (induction xs arbitrary: acc)
    case Nil
    show ?case by simp
  next
    case (Cons x xs)
    show ?case
      using Cons.IH no_ValueError [of x ys acc]
      by (cases "inner_loop x ys acc") auto
  qed
  then show "overlaps_with a b None = Inl ValueError \<longleftrightarrow> start a > end' a \<or> start b > end' b"
    by (simp add: overlaps_with_def)
next
  show "\<exists>v. overlaps_with a b (Some n) = Inr v"
    by (simp add: overlaps_with_Some)
next
  assume "start a < end' a \<and> start b < end' b"
  then show "\<exists>v. overlaps_with a b None = Inr v"
    by (simp add: overlaps_with_linear [of a b None 0])
qed

text \<open>
  Claim C4 on the code. The features \<open>(5, 5)\<close> and \<open>(7, 10)\<close> are not origin-spanning:
  neither has \<open>start > end\<close>. Yet \<open>overlaps_with\<close> without a circular length fails on
  them, in both call orders, with a TypeError: the guard tests \<open>start > end\<close>, the
  decomposition takes every feature that has not \<open>start < end\<close> for an origin-spanning
  one, and the range \<open>(5, None)\<close> it builds for \<open>(5, 5)\<close> is compared with an integer.
\<close>

theorem overlaps_with_error_not_origin_spanning:
  "\<not> start (GraphicFeature_init 5 5 None None) > end' (GraphicFeature_init 5 5 None None) \<and>
   \<not> start (GraphicFeature_init 7 10 None None) > end' (GraphicFeature_init 7 10 None None) \<and>
   overlaps_with (GraphicFeature_init 5 5 None None) (GraphicFeature_init 7 10 None None) None
     = Inl TypeError \<and>
   overlaps_with (GraphicFeature_init 7 10 None None) (GraphicFeature_init 5 5 None None) None
     = Inl TypeError"
  by (simp add: overlaps_with_def ranges_of_def sorted_pair_def tuple_lt_def py_lt_def
        py_gt_def GraphicFeature_init_def)

text \<open>
  Claim C10: when one feature has \<open>start = end\<close> and the other has \<open>start < end\<close>, a
  call of \<open>overlaps_with\<close> without a circular length does not take the guarded error
  branch (the guard tests \<open>start > end\<close>); the zero-length feature is decomposed into
  the ranges \<open>(start, None)\<close> and \<open>(0, end)\<close>, and the loops run the sorted comparison
  on the range whose upper bound is \<open>None\<close>. In either order of the two features the
  comparison then raises a TypeError when the zero-length feature does not start after
  the other one, and the call returns a value otherwise.
\<close>

theorem overlaps_with_zero_length:
  assumes "start a = end' a" and "start b < end' b"
  shows "ranges_of a None = [(start a, None), (0, Some (end' a))] \<and>
         overlaps_with a b None \<noteq> Inl ValueError \<and>
         overlaps_with b a None \<noteq> Inl ValueError \<and>
         overlaps_with a b None =
           outer_loop [(start a, None), (0, Some (end' a))] [(start b, Some (end' b))] False \<and>
         overlaps_with b a None =
           outer_loop [(start b, Some (end' b))] [(start a, None), (0, Some (end' a))] False \<and>
         (overlaps_with a b None = Inl TypeError \<longleftrightarrow> start a \<le> start b) \<and>
         (overlaps_with b a None = Inl TypeError \<longleftrightarrow> start a \<le> start b) \<and>
         (start b < start a \<longrightarrow>
            (\<exists>v. overlaps_with a b None = Inr v \<and> overlaps_with b a None = Inr v))"
  using assms
  by (auto simp: overlaps_with_def ranges_of_def sorted_pair_def tuple_lt_def
                 py_lt_def py_gt_def)

theorem overlaps_with_zero_length_witness:
  "start (GraphicFeature_init 5 5 None None) = end' (GraphicFeature_init 5 5 None None) \<and>
   start (GraphicFeature_init 7 10 None None) < end' (GraphicFeature_init 7 10 None None) \<and>
   start (GraphicFeature_init 5 5 None None) \<le> start (GraphicFeature_init 7 10 None None) \<and>
   overlaps_with (GraphicFeature_init 5 5 None None) (GraphicFeature_init 7 10 None None) None
     = Inl TypeError"
proof -
  let ?a = "GraphicFeature_init 5 5 None None" and ?b = "GraphicFeature_init 7 10 None None"
  have h: "start ?a = end' ?a" "start ?b < end' ?b" "start ?a \<le> start ?b"
    by (simp_all add: GraphicFeature_init_def)
  from overlaps_with_zero_length [OF h(1) h(2)] h(3)
  have "overlaps_with ?a ?b None = Inl TypeError" by blast
  with h show ?thesis by blast
qed

section \<open>Splitting a feature\<close>

text \<open>
  Claim C8, as stated, fails: a cut position outside the feature gives fragments that do
  not reconstruct the span. Cutting the feature \<open>(10, 20)\<close> at \<open>30\<close> gives the fragments
  \<open>(10, 30)\<close> and \<open>(31, 20)\<close>.
\<close>

theorem split_in_two_outside_counterexample:
  "span_of (fst (split_in_two (GraphicFeature_init 10 20 None None) 30)) \<union> {30}
     \<union> span_of (snd (split_in_two (GraphicFeature_init 10 20 None None) 30))
   \<noteq> span_of (GraphicFeature_init 10 20 None None)"
proof -
  have "(25::int) \<in> span_of (fst (split_in_two (GraphicFeature_init 10 20 None None) 30))"
    by (simp add: span_of_def split_in_two_def GraphicFeature_init_def)
  moreover have "(25::int) \<notin> span_of (GraphicFeature_init 10 20 None None)"
    by (simp add: span_of_def GraphicFeature_init_def)
  ultimately show ?thesis by blast
qed

text \<open>
  Claim C8, amended: for every feature \<open>f\<close> and cut position \<open>x\<close>, \<open>split_in_two\<close> returns
  two copies of \<open>f\<close>, the first with \<open>end = x\<close>, the second with \<open>start = x + 1\<close>, every
  other field as in \<open>f\<close>; the fragments share no position, neither holds \<open>x\<close>, and the
  second starts right after the first ends. When the cut lies in the feature
  (\<open>start \<le> x < end\<close>), the two fragments and the excluded point \<open>x\<close> together are
  exactly the span of \<open>f\<close>. When both fragments have \<open>start < end\<close>, they do not
  overlap according to \<open>overlaps_with\<close>.
\<close>

theorem split_in_two_spec:
  "fst (split_in_two f x) = f\<lparr>end' := x\<rparr> \<and>
   snd (split_in_two f x) = f\<lparr>start := x + 1\<rparr> \<and>
   (fst (split_in_two f x))\<lparr>end' := end' f\<rparr> = f \<and>
   (snd (split_in_two f x))\<lparr>start := start f\<rparr> = f \<and>
   span_of (fst (split_in_two f x)) \<inter> span_of (snd (split_in_two f x)) = {} \<and>
   x \<notin> span_of (fst (split_in_two f x)) \<and>
   x \<notin> span_of (snd (split_in_two f x)) \<and>
   start (snd (split_in_two f x)) = end' (fst (split_in_two f x)) + 1 \<and>
   (start f \<le> x \<and> x < end' f \<longrightarrow>
      span_of (fst (split_in_two f x)) \<union> {x} \<union> span_of (snd (split_in_two f x))
        = span_of f) \<and>
   (start f < x \<and> x + 1 < end' f \<longrightarrow>
      overlaps_with (fst (split_in_two f x)) (snd (split_in_two f x)) c = Inr False)"
proof -
  have "overlaps_with (f\<lparr>end' := x\<rparr>) (f\<lparr>start := x + 1\<rparr>) c = Inr False"
    if "start f < x" "x + 1 < end' f"
    using that
    by (simp add: overlaps_with_linear [of _ _ c 0] spec_overlaps_linear lex_less_def)
  then show ?thesis
    by (auto simp: split_in_two_def span_of_def)
qed

theorem split_in_two_spec_witness:
  "start (GraphicFeature_init 10 20 None None) \<le> 15 \<and>
   15 < end' (GraphicFeature_init 10 20 None None) \<and>
   span_of (fst (split_in_two (GraphicFeature_init 10 20 None None) 15)) \<union> {15}
     \<union> span_of (snd (split_in_two (GraphicFeature_init 10 20 None None) 15))
   = span_of (GraphicFeature_init 10 20 None None) \<and>
   start (GraphicFeature_init 10 20 None None) < 15 \<and>
   15 + 1 < end' (GraphicFeature_init 10 20 None None) \<and>
   overlaps_with (fst (split_in_two (GraphicFeature_init 10 20 None None) 15))
     (snd (split_in_two (GraphicFeature_init 10 20 None None) 15)) None = Inr False"
proof -
  let ?f = "GraphicFeature_init 10 20 None None"
  have h: "start ?f \<le> 15 \<and> 15 < end' ?f" "start ?f < 15 \<and> 15 + 1 < end' ?f"
    by (simp_all add: GraphicFeature_init_def)
  with split_in_two_spec [of ?f 15 None] show ?thesis by blast
qed

section \<open>Lengths and centres of features\<close>

lemma length_circular_linear:
  "start f \<le> end' f \<Longrightarrow> length_circular f n = feature_length f"
  by (simp add: length_circular_def feature_length_def)

text \<open>
  On the exact model (coordinates small enough for float arithmetic to be exact), the two
  centres of a feature with \<open>start \<le> end\<close> that does not reach past the sequence
  differ by one half.
\<close>

lemma x_center_circular_linear:
  assumes "start f \<le> end' f" and "start f + end' f \<le> 2 * n"
  shows "x_center_circular f n = x_center f + 1 / 2"
proof -
  have "(of_int (start f + end' f) :: rat) \<le> of_int (2 * n)"
    using assms(2) by (simp only: of_int_le_iff)
  then have "(of_int (end' f) - of_int (start f)) / 2 + of_int (start f) \<le> (of_int n :: rat)"
    by (simp add: field_simps)
  then show ?thesis
    using assms(1) by (simp add: x_center_circular_def x_center_def length_circular_def field_simps)
qed

text \<open>
  Claim C6 on the code. For the feature \<open>(0, 10)\<close> on a sequence of length 100 the two
  lengths agree, but \<open>x_center\<close> is \<open>4.5\<close> where \<open>x_center_circular\<close> is \<open>5\<close>; and for
  the origin-spanning feature \<open>(14, 6)\<close> on a sequence of length 20 (the feature of
  \<open>test_translate_compoundfeature\<close>) \<open>x_center_circular\<close> is \<open>20\<close>, the sequence length
  itself.
\<close>

theorem x_center_circular_values:
  "length_circular (GraphicFeature_init 0 10 None None) 100
     = feature_length (GraphicFeature_init 0 10 None None) \<and>
   x_center (GraphicFeature_init 0 10 None None) = 9 / 2 \<and>
   x_center_circular (GraphicFeature_init 0 10 None None) 100 = 5 \<and>
   x_center_circular (GraphicFeature_init 14 6 None None) 20 = 20"
  by (simp add: length_circular_def feature_length_def x_center_def x_center_circular_def
        GraphicFeature_init_def)

section \<open>Level assignment: no overlap within a level, and as few levels as possible\<close>

lemma overlaps_with_meet:
  assumes "start f < end' f" and "start g < end' g"
  shows "overlaps_with f g c = Inr (meet f g)"
  using assms
  by (auto simp: overlaps_with_linear [of f g c 0] spec_overlaps_linear lex_less_def meet_def)

lemma find_level_spec:
  assumes "start f < end' f" and "\<forall>g \<in> set occ. start g < end' g \<and> start g \<le> start f"
  shows "\<exists>m. find_level f occ c k = Inr (k + m) \<and> m \<le> length occ \<and>
             (\<forall>j < m. start f < end' (occ ! j)) \<and>
             (m < length occ \<longrightarrow> end' (occ ! m) \<le> start f)"
  using assms(2)
proof (induction occ arbitrary: k)
  case Nil
  show ?case by simp
next
  case (Cons g occ)
  have g: "start g < end' g" "start g \<le> start f"
    using Cons.prems by simp_all
  have ov: "overlaps_with f g c = Inr (start f < end' g)"
    using overlaps_with_meet [OF assms(1) g(1), of c] g assms(1) by (auto simp: meet_def)
  show ?case
  proof (cases "start f < end' g")
    case True
    from Cons.IH [of "k + 1"] Cons.prems
    obtain m where m: "find_level f occ c (k + 1) = Inr (k + 1 + m)" "m \<le> length occ"
        "\<forall>j < m. start f < end' (occ ! j)" "m < length occ \<longrightarrow> end' (occ ! m) \<le> start f"
      by auto
    have "\<forall>j < Suc m. start f < end' ((g # occ) ! j)"
      using m(3) True by (auto simp: nth_Cons')
    with m True ov show ?thesis
      by (intro exI [of _ "Suc m"]) simp
  next
    case False
    with ov show ?thesis
      by (intro exI [of _ 0]) simp
  qed
qed

lemma place_length:
  "m \<le> length occ \<Longrightarrow> length (place m f occ) = (if m < length occ then length occ else Suc (length occ))"
  by (simp add: place_def)

lemma place_nth_same: "l < length occ \<Longrightarrow> l \<noteq> m \<Longrightarrow> place m f occ ! l = occ ! l"
  by (simp add: place_def nth_append)

lemma place_nth_new: "m \<le> length occ \<Longrightarrow> place m f occ ! m = f"
  by (simp add: place_def nth_append)

lemma place_set: "set (place m f occ) \<subseteq> insert f (set occ)"
  using set_update_subset_insert [of occ m f] by (auto simp: place_def)

lemma level_step:
  assumes inv: "level_inv fs occ levels"
    and lin: "\<forall>f \<in> set fs. start f < end' f"
    and i: "i < length fs" "i \<notin> fst ` set levels"
    and le: "\<forall>g \<in> set occ. start g \<le> start (fs ! i)"
  shows "\<exists>l. find_level (fs ! i) occ c 0 = Inr l \<and>
             level_inv fs (place l (fs ! i) occ) (levels @ [(i, l)]) \<and>
             (\<forall>g \<in> set (place l (fs ! i) occ). start g \<le> start (fs ! i))"
proof -
  let ?f = "fs ! i"
  from inv have D: "distinct (map fst levels)"
    by (simp add: level_inv_def)
  from inv have I1: "\<forall>p \<in> set levels. fst p < length fs \<and> snd p < length occ \<and>
           start (fs ! fst p) \<le> start (occ ! snd p) \<and> end' (fs ! fst p) \<le> end' (occ ! snd p)"
    by (simp add: level_inv_def)
  from inv have I2: "\<forall>l < length occ. \<exists>p \<in> set levels. snd p = l \<and> fs ! fst p = occ ! l"
    by (simp add: level_inv_def)
  from inv have I3: "\<forall>p \<in> set levels. \<forall>q \<in> set levels.
           fst p \<noteq> fst q \<and> snd p = snd q \<longrightarrow> \<not> meet (fs ! fst p) (fs ! fst q)"
    by (simp add: level_inv_def)
  from inv obtain K where K: "K \<subseteq> fst ` set levels" "card K = length occ"
      "\<forall>a \<in> K. \<forall>b \<in> K. a \<noteq> b \<longrightarrow> meet (fs ! a) (fs ! b)"
    unfolding level_inv_def by blast
  have f: "start ?f < end' ?f"
    using lin i(1) by simp
  have occ_lin: "\<forall>g \<in> set occ. start g < end' g \<and> start g \<le> start ?f"
  proof
    fix g
    assume g: "g \<in> set occ"
    then obtain l where l: "l < length occ" "g = occ ! l"
      by (auto simp: in_set_conv_nth)
    with I2 obtain p where p: "p \<in> set levels" "fs ! fst p = occ ! l"
      by blast
    with I1 have "fst p < length fs" by blast
    with lin have "start (fs ! fst p) < end' (fs ! fst p)" by simp
    with p l le g show "start g < end' g \<and> start g \<le> start ?f" by simp
  qed
  from find_level_spec [OF f occ_lin, of c 0]
  obtain m where m: "find_level ?f occ c 0 = Inr m" "m \<le> length occ"
      "\<forall>j < m. start ?f < end' (occ ! j)" "m < length occ \<longrightarrow> end' (occ ! m) \<le> start ?f"
    by auto
  let ?occ' = "place m ?f occ" and ?lv' = "levels @ [(i, m)]"
  note len = place_length [OF m(2), of ?f]
  note nth_new = place_nth_new [OF m(2), of ?f]
  have J0: "distinct (map fst ?lv')"
    using D i(2) by (simp add: image_iff)
  have J1: "\<forall>p \<in> set ?lv'. fst p < length fs \<and> snd p < length ?occ' \<and>
           start (fs ! fst p) \<le> start (?occ' ! snd p) \<and> end' (fs ! fst p) \<le> end' (?occ' ! snd p)"
  proof
    fix p
    assume "p \<in> set ?lv'"
    then consider "p = (i, m)" | "p \<in> set levels" by auto
    then show "fst p < length fs \<and> snd p < length ?occ' \<and>
           start (fs ! fst p) \<le> start (?occ' ! snd p) \<and> end' (fs ! fst p) \<le> end' (?occ' ! snd p)"
    proof cases
      case 1
      with i(1) m(2) len nth_new show ?thesis by simp
    next
      case 2
      with I1 have a: "fst p < length fs" "snd p < length occ"
          "start (fs ! fst p) \<le> start (occ ! snd p)" "end' (fs ! fst p) \<le> end' (occ ! snd p)"
        by auto
      show ?thesis
      proof (cases "snd p = m")
        case True
        with a have ml: "m < length occ" by simp
        with m(4) have "end' (occ ! m) \<le> start ?f" by simp
        moreover from ml le have "start (occ ! m) \<le> start ?f" by simp
        ultimately show ?thesis
          using a True nth_new f len by simp
      next
        case False
        with a len show ?thesis by (simp add: place_nth_same)
      qed
    qed
  qed
  have J2: "\<forall>l < length ?occ'. \<exists>p \<in> set ?lv'. snd p = l \<and> fs ! fst p = ?occ' ! l"
  proof (intro allI impI)
    fix l
    assume l: "l < length ?occ'"
    show "\<exists>p \<in> set ?lv'. snd p = l \<and> fs ! fst p = ?occ' ! l"
    proof (cases "l = m")
      case True
      with nth_new show ?thesis by (intro bexI [of _ "(i, m)"]) simp_all
    next
      case False
      with l len m(2) have ll: "l < length occ" by (simp split: if_splits)
      with I2 obtain p where "p \<in> set levels" "snd p = l" "fs ! fst p = occ ! l" by blast
      with False ll show ?thesis
        by (intro bexI [of _ p]) (simp_all add: place_nth_same)
    qed
  qed
  have new: "\<not> meet (fs ! fst p) ?f \<and> \<not> meet ?f (fs ! fst p)"
    if "p \<in> set levels" "snd p = m" for p
  proof -
    from that I1 have a: "m < length occ" "end' (fs ! fst p) \<le> end' (occ ! m)" by auto
    with m(4) have "end' (occ ! m) \<le> start ?f" by simp
    with a show ?thesis by (simp add: meet_def)
  qed
  have J3: "\<forall>p \<in> set ?lv'. \<forall>q \<in> set ?lv'.
           fst p \<noteq> fst q \<and> snd p = snd q \<longrightarrow> \<not> meet (fs ! fst p) (fs ! fst q)"
  proof (intro ballI impI)
    fix p q
    assume p: "p \<in> set ?lv'" and q: "q \<in> set ?lv'"
      and h: "fst p \<noteq> fst q \<and> snd p = snd q"
    from p consider "p = (i, m)" | "p \<in> set levels" by auto
    then show "\<not> meet (fs ! fst p) (fs ! fst q)"
    proof cases
      case 1
      with h have hq: "fst q \<noteq> i" "snd q = m" by auto
      have "q \<noteq> (i, m)" using hq(1) by (metis fst_conv)
      with q have "q \<in> set levels" by simp
      with new [of q] 1 hq show ?thesis by simp
    next
      case 2
      from q consider "q = (i, m)" | "q \<in> set levels" by auto
      then show ?thesis
      proof cases
        case 1
        with 2 h new [of p] show ?thesis by simp
      next
        case 2
        with \<open>p \<in> set levels\<close> I3 h show ?thesis by blast
      qed
    qed
  qed
  have J4: "\<exists>K. K \<subseteq> fst ` set ?lv' \<and> card K = length ?occ' \<and>
           (\<forall>a \<in> K. \<forall>b \<in> K. a \<noteq> b \<longrightarrow> meet (fs ! a) (fs ! b))"
  proof (cases "m < length occ")
    case True
    with K len show ?thesis
      by (intro exI [of _ K]) auto
  next
    case False
    with m(2) have meq: "m = length occ" by simp
    from I2 have "\<forall>l \<in> {..<length occ}. \<exists>k. (k, l) \<in> set levels \<and> fs ! k = occ ! l"
      by (metis lessThan_iff prod.collapse)
    then obtain w where w: "\<forall>l \<in> {..<length occ}. (w l, l) \<in> set levels \<and> fs ! w l = occ ! l"
      by (auto dest: bchoice)
    have inj: "inj_on w {..<length occ}"
    proof (rule inj_onI)
      fix a b
      assume ab: "a \<in> {..<length occ}" "b \<in> {..<length occ}" "w a = w b"
      from w ab(1) have "(w a, a) \<in> set levels" by blast
      moreover from w ab(2) have "(w b, b) \<in> set levels" by blast
      ultimately have "(w a, a) \<in> set levels" "(w a, b) \<in> set levels"
        using ab(3) by simp_all
      with D show "a = b" by (rule eq_key_imp_eq_value)
    qed
    let ?K = "insert i (w ` {..<length occ})"
    have "i \<notin> w ` {..<length occ}"
      using w i(2) by (force simp: image_iff)
    with inj have card: "card ?K = Suc (length occ)"
      by (simp add: card_image)
    have sub: "?K \<subseteq> fst ` set ?lv'"
      using w by force
    have pt: "start (fs ! k) \<le> start ?f \<and> start ?f < end' (fs ! k)" if "k \<in> ?K" for k
    proof (cases "k = i")
      case True
      with f show ?thesis by simp
    next
      case False
      with that obtain l where l: "l < length occ" "k = w l" by auto
      with w have "fs ! k = occ ! l" by simp
      with l le m(3) meq show ?thesis by simp
    qed
    have "\<forall>a \<in> ?K. \<forall>b \<in> ?K. a \<noteq> b \<longrightarrow> meet (fs ! a) (fs ! b)"
    proof (intro ballI impI)
      fix a b
      assume "a \<in> ?K" "b \<in> ?K"
      with pt [of a] pt [of b] show "meet (fs ! a) (fs ! b)"
        by (simp add: meet_def)
    qed
    with card sub len meq show ?thesis
      by (intro exI [of _ ?K]) simp
  qed
  have J5: "\<forall>g \<in> set ?occ'. start g \<le> start ?f"
    using place_set [of m ?f occ] le by auto
  from J0 J1 J2 J3 J4 have "level_inv fs ?occ' ?lv'"
    unfolding level_inv_def by blast
  with m(1) J5 show ?thesis by blast
qed

lemma assign_levels_inv:
  assumes lin: "\<forall>f \<in> set fs. start f < end' f"
  shows "level_inv fs occ levels \<Longrightarrow>
         \<forall>p \<in> set rest. fst p < length fs \<and> snd p = fs ! fst p \<Longrightarrow>
         distinct (map fst rest) \<Longrightarrow>
         fst ` set rest \<inter> fst ` set levels = {} \<Longrightarrow>
         sorted (map (\<lambda>p. start (snd p)) rest) \<Longrightarrow>
         \<forall>g \<in> set occ. \<forall>p \<in> set rest. start g \<le> start (snd p) \<Longrightarrow>
         \<exists>levels' occ'. assign_levels rest c occ levels = Inr levels' \<and>
            level_inv fs occ' levels' \<and> map fst levels' = map fst levels @ map fst rest"
proof (induction rest arbitrary: occ levels)
  case Nil
  then show ?case by auto
next
  case (Cons p rest)
  obtain i f where p: "p = (i, f)" by (cases p)
  from Cons.prems(2) p have i: "i < length fs" and f: "f = fs ! i" by simp_all
  from Cons.prems(4) p have fresh: "i \<notin> fst ` set levels" by auto
  from Cons.prems(6) p f have le: "\<forall>g \<in> set occ. start g \<le> start (fs ! i)" by simp
  from level_step [OF Cons.prems(1) lin i fresh le, of c]
  obtain l where l: "find_level (fs ! i) occ c 0 = Inr l"
      "level_inv fs (place l (fs ! i) occ) (levels @ [(i, l)])"
      "\<forall>g \<in> set (place l (fs ! i) occ). start g \<le> start (fs ! i)"
    by blast
  have a2: "\<forall>q \<in> set rest. fst q < length fs \<and> snd q = fs ! fst q"
    using Cons.prems(2) by simp
  have a3: "distinct (map fst rest)"
    using Cons.prems(3) by simp
  have "i \<notin> fst ` set rest"
    using Cons.prems(3) p by simp
  then have a4: "fst ` set rest \<inter> fst ` set (levels @ [(i, l)]) = {}"
    using Cons.prems(4) by auto
  have a5: "sorted (map (\<lambda>p. start (snd p)) rest)"
    using Cons.prems(5) by simp
  have "\<forall>q \<in> set rest. start (fs ! i) \<le> start (snd q)"
    using Cons.prems(5) p f by simp
  with l(3) have a6: "\<forall>g \<in> set (place l (fs ! i) occ). \<forall>q \<in> set rest. start g \<le> start (snd q)"
    by fastforce
  from Cons.IH [OF l(2) a2 a3 a4 a5 a6]
  obtain levels' occ' where r: "assign_levels rest c (place l (fs ! i) occ) (levels @ [(i, l)]) = Inr levels'"
      "level_inv fs occ' levels'" "map fst levels' = map fst (levels @ [(i, l)]) @ map fst rest"
    by blast
  from r(1) l(1) p f have "assign_levels (p # rest) c occ levels = Inr levels'"
    by simp
  moreover from r(3) p have "map fst levels' = map fst levels @ map fst (p # rest)"
    by simp
  ultimately show ?case using r(2) by blast
qed

lemma level_inv_empty: "level_inv fs [] []"
  by (simp add: level_inv_def)

lemma level_inv_disjoint:
  assumes "level_inv fs occ levels" and "\<forall>f \<in> set fs. start f < end' f"
  shows "levels_disjoint fs c levels"
  unfolding levels_disjoint_def
proof (intro ballI impI)
  fix p q
  assume p: "p \<in> set levels" and q: "q \<in> set levels"
    and h: "fst p \<noteq> fst q \<and> snd p = snd q"
  from assms(1) p q have "fst p < length fs" "fst q < length fs"
    by (simp_all add: level_inv_def)
  with assms(2) have "overlaps_with (fs ! fst p) (fs ! fst q) c = Inr (meet (fs ! fst p) (fs ! fst q))"
    by (simp add: overlaps_with_meet)
  moreover from assms(1) p q h have "\<not> meet (fs ! fst p) (fs ! fst q)"
    unfolding level_inv_def by blast
  ultimately show "\<not> overlapping fs c (fst p) (fst q)"
    by (simp add: overlapping_def)
qed

lemma level_inv_minimal:
  assumes inv: "level_inv fs occ levels" and lin: "\<forall>f \<in> set fs. start f < end' f"
    and proper: "proper_levels fs c lv"
  shows "card (snd ` set levels) \<le> card (lv ` {..<length fs})"
proof -
  from inv obtain K where K: "K \<subseteq> fst ` set levels" "card K = length occ"
      "\<forall>a \<in> K. \<forall>b \<in> K. a \<noteq> b \<longrightarrow> meet (fs ! a) (fs ! b)"
    unfolding level_inv_def by blast
  from inv have bound: "\<forall>p \<in> set levels. fst p < length fs \<and> snd p < length occ"
    by (simp add: level_inv_def)
  then have "snd ` set levels \<subseteq> {..<length occ}" by auto
  then have "card (snd ` set levels) \<le> card {..<length occ}"
    by (intro card_mono) simp_all
  then have used: "card (snd ` set levels) \<le> length occ" by simp
  from K(1) bound have Ksub: "K \<subseteq> {..<length fs}" by auto
  have "inj_on lv K"
  proof (rule inj_onI)
    fix a b
    assume ab: "a \<in> K" "b \<in> K" "lv a = lv b"
    show "a = b"
    proof (rule ccontr)
      assume ne: "a \<noteq> b"
      with K(3) ab have m: "meet (fs ! a) (fs ! b)" by blast
      from ab Ksub have "a < length fs" "b < length fs" by auto
      with lin have "overlaps_with (fs ! a) (fs ! b) c = Inr (meet (fs ! a) (fs ! b))"
        by (simp add: overlaps_with_meet)
      with m have "overlapping fs c a b" by (simp add: overlapping_def)
      moreover from proper ab(3) ne \<open>a < length fs\<close> \<open>b < length fs\<close>
      have "\<not> overlapping fs c a b"
        by (simp add: proper_levels_def)
      ultimately show False by simp
    qed
  qed
  then have "card K = card (lv ` K)" by (simp add: card_image)
  also have "\<dots> \<le> card (lv ` {..<length fs})"
    using Ksub by (intro card_mono) auto
  finally show ?thesis using used K(2) by simp
qed

text \<open>
  Claim C9, as stated, fails on a circular record with an origin-spanning feature. Only
  the most recently placed feature of a level is tested: on the circular record of length
  100, \<open>(0, 20)\<close> and \<open>(30, 40)\<close> share level 0, the origin-spanning \<open>(90, 10)\<close>
  does not overlap \<open>(30, 40)\<close> and joins them, and it overlaps \<open>(0, 20)\<close>.
\<close>

theorem compute_features_levels_circular_counterexample:
  "compute_features_levels circular_record True = Inr [(0, 0), (1, 0), (2, 0)] \<and>
   overlaps_with (features circular_record ! 0) (features circular_record ! 2)
     (circular_length circular_record True) = Inr True"
  by (simp add: compute_features_levels_def circular_record_def circular_length_def
        GraphicFeature_init_def overlaps_with_Some spec_overlaps_def decompose_def
        strict_overlap_def lex_less_def place_def)

text \<open>
  Claim C9, amended: for every record whose features all have \<open>start < end\<close>, circular
  or not, the level assignment succeeds and gives each feature exactly one level (a
  natural number); no two features assigned the same level overlap according to
  \<open>overlaps_with\<close>; and the number of distinct levels used is at most that of any
  assignment of levels under which no two features of the same level overlap.
\<close>

theorem compute_features_levels_linear:
  assumes "\<forall>f \<in> set (features r). start f < end' f"
  shows "\<exists>levels. compute_features_levels r circular = Inr levels \<and>
           mset (map fst levels) = mset [0..<length (features r)] \<and>
           levels_disjoint (features r) (circular_length r circular) levels \<and>
           (\<forall>lv. proper_levels (features r) (circular_length r circular) lv \<longrightarrow>
                 card (snd ` set levels) \<le> card (lv ` {..<length (features r)}))"
proof -
  let ?fs = "features r" and ?c = "circular_length r circular"
  let ?xs = "sort_key (\<lambda>p. start (snd p)) (enumerate 0 ?fs)"
  have "mset (map fst ?xs) = mset (map fst (enumerate 0 ?fs))"
    by (simp only: mset_map mset_sort)
  moreover have "map fst (enumerate 0 ?fs) = [0..<length ?fs]"
    by (simp add: map_fst_enumerate)
  ultimately have m: "mset (map fst ?xs) = mset [0..<length ?fs]"
    by (simp only:)
  have a2: "\<forall>p \<in> set ?xs. fst p < length ?fs \<and> snd p = ?fs ! fst p"
    by (auto simp: in_set_enumerate_eq)
  have "distinct (map fst (enumerate 0 ?fs))"
    by (simp add: map_fst_enumerate)
  then have a3: "distinct (map fst ?xs)"
    using m by (metis distinct_upt mset_eq_imp_distinct_iff)
  have a5: "sorted (map (\<lambda>p. start (snd p)) ?xs)"
    by (rule sorted_sort_key)
  from assign_levels_inv [OF assms level_inv_empty a2 a3 _ a5, of ?c]
  obtain levels occ where r: "assign_levels ?xs ?c [] [] = Inr levels"
      "level_inv ?fs occ levels" "map fst levels = map fst ?xs"
    by auto
  from r(1) have "compute_features_levels r circular = Inr levels"
    by (simp add: compute_features_levels_def)
  moreover from r(3) m have "mset (map fst levels) = mset [0..<length ?fs]"
    by simp
  moreover from r(2) assms have "levels_disjoint ?fs ?c levels"
    by (rule level_inv_disjoint)
  moreover from r(2) assms
  have "\<forall>lv. proper_levels ?fs ?c lv \<longrightarrow> card (snd ` set levels) \<le> card (lv ` {..<length ?fs})"
    by (blast intro: level_inv_minimal)
  ultimately show ?thesis by blast
qed

theorem compute_features_levels_linear_witness:
  "list_all (\<lambda>f. start f < end' f) (features by_hand_record) \<and>
   compute_features_levels by_hand_record False = Inr [(0, 0), (1, 0), (2, 1), (3, 0)] \<and>
   levels_disjoint (features by_hand_record) None [(0, 0), (1, 0), (2, 1), (3, 0)] \<and>
   proper_levels (features by_hand_record) None (\<lambda>i. if i = 2 then 1 else 0) \<and>
   card (snd ` set [(0::nat, 0::nat), (1, 0), (2, 1), (3, 0)])
     \<le> card ((\<lambda>i. if i = 2 then 1 else 0 :: nat) ` {..<length (features by_hand_record)})"
proof -
  let ?lv = "\<lambda>i::nat. if i = 2 then 1 else 0 :: nat"
  have h: "\<forall>f \<in> set (features by_hand_record). start f < end' f"
    by (simp add: by_hand_record_def GraphicFeature_init_def)
  have c: "circular_length by_hand_record False = None"
    by (simp add: circular_length_def)
  have e: "compute_features_levels by_hand_record False = Inr [(0, 0), (1, 0), (2, 1), (3, 0)]"
    by (simp add: compute_features_levels_def by_hand_record_def circular_length_def
          GraphicFeature_init_def overlaps_with_def ranges_of_def sorted_pair_def tuple_lt_def
          py_lt_def py_gt_def place_def)
  have "{..<length (features by_hand_record)} = {0, 1, 2, 3}"
    by (auto simp: by_hand_record_def)
  then have pr: "proper_levels (features by_hand_record) None ?lv"
    by (simp add: proper_levels_def overlapping_def by_hand_record_def
          GraphicFeature_init_def overlaps_with_def ranges_of_def sorted_pair_def tuple_lt_def
          py_lt_def py_gt_def)
  from compute_features_levels_linear [OF h, of False] e c
  have "levels_disjoint (features by_hand_record) None [(0, 0), (1, 0), (2, 1), (3, 0)]"
    and "\<forall>lv. proper_levels (features by_hand_record) None lv \<longrightarrow>
           card (snd ` set [(0::nat, 0::nat), (1, 0), (2, 1), (3, 0)])
             \<le> card (lv ` {..<length (features by_hand_record)})"
    by auto
  with pr e h show ?thesis
    by (simp only: list_all_iff simp_thms)
qed

end
